theory Spec2Isabelle
  imports Complex_Main
begin

section \<open>The Reclame Aqui crawler: data model\<close>

text \<open>
  The program is the class \<open>ReclameAquiScraper\<close> of
  \<open>src/crawlers/crawler_reclame_aqui.py\<close>. Its methods read and write the fields of one
  object, send HTTP GET requests through a \<open>requests\<close> session and write log records.
  The embedding passes the object explicitly; the requests sent and the log records
  written are kept in two extra fields, \<open>sent\<close> and \<open>logged\<close>, so that they can be
  observed.
\<close>

subsection \<open>Decoded JSON values\<close>

text \<open>
  What \<open>response.json()\<close> returns: \<open>None\<close>, a bool, an int, a float, a str, a list
  or a dict. A dict is an association list read with \<open>map_of\<close>, its keys distinct. A
  float is kept as a real number; the program only ever tests it against zero.
  The attribute \<open>self.content\<close> holds such a value, \<open>JNull\<close> being Python's \<open>None\<close>.
\<close>

datatype json =
    JNull
  | JBool bool
  | JInt int
  | JFloat real
  | JStr string
  | JArr "json list"
  | JObj "(string \<times> json) list"

datatype py_error = TypeError | AttributeError | KeyError

text \<open>Truth value of an object in a condition (\<open>if self.content:\<close>).\<close>

fun truthy :: "json \<Rightarrow> bool" where
  "truthy JNull = False"
| "truthy (JBool b) = b"
| "truthy (JInt n) = (n \<noteq> 0)"
| "truthy (JFloat r) = (r \<noteq> 0)"
| "truthy (JStr s) = (s \<noteq> [])"
| "truthy (JArr xs) = (xs \<noteq> [])"
| "truthy (JObj kvs) = (kvs \<noteq> [])"

fun starts_with :: "string \<Rightarrow> string \<Rightarrow> bool" where
  "starts_with [] ys = True"
| "starts_with (x # xs) [] = False"
| "starts_with (x # xs) (y # ys) = (x = y \<and> starts_with xs ys)"

fun substring_of :: "string \<Rightarrow> string \<Rightarrow> bool" where
  "substring_of k [] = (k = [])"
| "substring_of k (y # ys) = (starts_with k (y # ys) \<or> substring_of k ys)"

text \<open>\<open>k in obj\<close> for a str \<open>k\<close>: key of a dict, element of a list, substring of a str.\<close>

fun py_contains :: "json \<Rightarrow> string \<Rightarrow> py_error + bool" where
  "py_contains (JObj kvs) k = Inr (map_of kvs k \<noteq> None)"
| "py_contains (JArr xs) k = Inr (JStr k \<in> set xs)"
| "py_contains (JStr s) k = Inr (substring_of k s)"
| "py_contains JNull k = Inl TypeError"
| "py_contains (JBool b) k = Inl TypeError"
| "py_contains (JInt n) k = Inl TypeError"
| "py_contains (JFloat r) k = Inl TypeError"

text \<open>\<open>obj[k]\<close> for a str \<open>k\<close>.\<close>

fun py_getitem :: "json \<Rightarrow> string \<Rightarrow> py_error + json" where
  "py_getitem (JObj kvs) k = (case map_of kvs k of None \<Rightarrow> Inl KeyError | Some v \<Rightarrow> Inr v)"
| "py_getitem j k = Inl TypeError"

text \<open>\<open>obj.get(k, d)\<close>: only a dict has the method.\<close>

fun py_get :: "json \<Rightarrow> string \<Rightarrow> json \<Rightarrow> py_error + json" where
  "py_get (JObj kvs) k d = Inr (case map_of kvs k of None \<Rightarrow> d | Some v \<Rightarrow> v)"
| "py_get j k d = Inl AttributeError"

text \<open>
  \<open>all_companies.extend(v)\<close> iterates over \<open>v\<close>: the elements of a list, the keys of a
  dict, the characters of a str; anything else is not iterable.
\<close>

fun list_extend :: "json list \<Rightarrow> json \<Rightarrow> py_error + json list" where
  "list_extend acc (JArr xs) = Inr (acc @ xs)"
| "list_extend acc (JObj kvs) = Inr (acc @ map (\<lambda>kv. JStr (fst kv)) kvs)"
| "list_extend acc (JStr s) = Inr (acc @ map (\<lambda>c. JStr [c]) s)"
| "list_extend acc JNull = Inl TypeError"
| "list_extend acc (JBool b) = Inl TypeError"
| "list_extend acc (JInt n) = Inl TypeError"
| "list_extend acc (JFloat r) = Inl TypeError"

text \<open>
  \<open>range(1, total_pages + 1)\<close>: an int (a bool counts as 0 or 1) gives the pages
  \<open>1..total_pages\<close>; a float passes the addition and is refused by \<open>range\<close>; the
  addition fails on every other value.
\<close>

fun page_range :: "json \<Rightarrow> py_error + int list" where
  "page_range (JInt n) = Inr [1..n]"
| "page_range (JBool b) = Inr [1..(if b then 1 else 0)]"
| "page_range j = Inl TypeError"

subsection \<open>Rendering an int in an f-string\<close>

fun str_nat :: "nat \<Rightarrow> string" where
  "str_nat n = (if n < 10 then [''0123456789'' ! n]
                else str_nat (n div 10) @ [''0123456789'' ! (n mod 10)])"

declare str_nat.simps [simp del]

definition str_int :: "int \<Rightarrow> string" where
  "str_int i = (if i < 0 then CHR ''-'' # str_nat (nat (- i)) else str_nat (nat i))"

subsection \<open>HTTP session, requests and responses\<close>

record retry =
  total :: "int option"
  status_forcelist :: "int list"

record adapter =
  max_retries :: retry

record session =
  mounts :: "(string \<times> adapter) list"

record request =
  req_url :: string
  req_headers :: "(string \<times> string) list"

text \<open>
  What \<open>self.http.get(url, headers=headers)\<close> gives back: a response with its
  \<open>status_code\<close>, its \<open>text\<close> and the value of \<open>response.json()\<close> (\<open>None\<close> when the body
  is not JSON), or a raised \<open>requests.RequestException\<close>. A status of the
  session's \<open>status_forcelist\<close> that outlasts the retries reaches the caller as a
  \<open>RetryError\<close>, which is a \<open>RequestException\<close>. The remote side is a function of
  the requests sent so far and of the current request.
\<close>

datatype http_outcome =
    Response int string "json option"
  | RequestException string

type_synonym server = "request list \<Rightarrow> request \<Rightarrow> http_outcome"

subsection \<open>Log records\<close>

datatype level = INFO | WARNING | ERROR

datatype log_event =
    SearchStarted string
  | PageFetched int
  | StatusFailure int
  | ResponseBody string
  | RequestFailure string
  | CompaniesExtracted
  | NoContent
  | TotalPages json
  | NoPagination
  | SearchFinished nat

fun level_of :: "log_event \<Rightarrow> level" where
  "level_of (SearchStarted k) = INFO"
| "level_of (PageFetched p) = INFO"
| "level_of (StatusFailure c) = ERROR"
| "level_of (ResponseBody b) = ERROR"
| "level_of (RequestFailure e) = ERROR"
| "level_of CompaniesExtracted = INFO"
| "level_of NoContent = WARNING"
| "level_of (TotalPages v) = INFO"
| "level_of NoPagination = WARNING"
| "level_of (SearchFinished n) = INFO"

subsection \<open>The scraper object\<close>

record scraper =
  page :: int
  results_per_page :: int
  keyword :: string
  type_rank :: string
  http :: session
  content :: json
  sent :: "request list"
  logged :: "log_event list"

section \<open>The methods\<close>

definition configure_session :: session where
  "configure_session =
     (let retry_strategy = \<lparr>total = Some 3, status_forcelist = [403, 429, 500, 502, 503, 504]\<rparr>;
          adapter = \<lparr>max_retries = retry_strategy\<rparr>
      in \<lparr>mounts = [(''https://'', adapter), (''http://'', adapter)]\<rparr>)"

definition init :: scraper where
  "init = \<lparr>page = 1, results_per_page = 50, keyword = '''', type_rank = ''best'',
           http = configure_session, content = JNull, sent = [], logged = []\<rparr>"

definition url :: "scraper \<Rightarrow> string" where
  "url s = ''https://iosearch.reclameaqui.com.br/raichu-io-site-search-v1/segments/ranking/''
           @ type_rank s @ ''/'' @ keyword s @ ''/'' @ str_int (page s)
           @ ''/'' @ str_int (results_per_page s)"

definition headers :: "(string \<times> string) list" where
  "headers =
     [(''User-Agent'', ''Mozilla/5.0 (Windows NT 10.0; Win64; x64) AppleWebKit/537.36 (KHTML, like Gecko) Chrome/126.0.0.0 Safari/537.36''),
      (''Accept'', ''application/json'')]"

text \<open>
  \<open>search_companies\<close>: one GET for the current page. On status 200 the decoded body
  replaces \<open>self.content\<close> and is returned. On any other status, and on a
  \<open>RequestException\<close>, errors are logged, \<open>self.content\<close> keeps its value and the
  method returns \<open>None\<close>. A body that does not decode makes \<open>response.json()\<close> raise
  \<open>requests.exceptions.JSONDecodeError\<close>, a \<open>RequestException\<close>, caught by the same
  handler.
\<close>

definition search_companies :: "server \<Rightarrow> scraper \<Rightarrow> json \<times> scraper" where
  "search_companies srv s =
     (let rq = \<lparr>req_url = url s, req_headers = headers\<rparr>;
          s1 = s\<lparr>sent := sent s @ [rq]\<rparr>
      in case srv (sent s) rq of
           Response status_code body js \<Rightarrow>
             if status_code = 200 then
               (case js of
                  Some j \<Rightarrow> (j, s1\<lparr>content := j, logged := logged s1 @ [PageFetched (page s1)]\<rparr>)
                | None \<Rightarrow> (JNull, s1\<lparr>logged := logged s1 @ [RequestFailure ''JSONDecodeError'']\<rparr>))
             else (JNull, s1\<lparr>logged := logged s1 @ [StatusFailure status_code, ResponseBody body]\<rparr>)
         | RequestException e \<Rightarrow> (JNull, s1\<lparr>logged := logged s1 @ [RequestFailure e]\<rparr>))"

definition get_companies_data :: "scraper \<Rightarrow> (py_error + json) \<times> scraper" where
  "get_companies_data s =
     (if truthy (content s) then
        (case py_get (content s) ''companies'' (JArr []) of
           Inl e \<Rightarrow> (Inl e, s)
         | Inr companies \<Rightarrow> (Inr companies, s\<lparr>logged := logged s @ [CompaniesExtracted]\<rparr>))
      else (Inr (JArr []), s\<lparr>logged := logged s @ [NoContent]\<rparr>))"

definition get_total_pages :: "scraper \<Rightarrow> (py_error + json) \<times> scraper" where
  "get_total_pages s =
     (let fallback = (Inr (JInt 1), s\<lparr>logged := logged s @ [NoPagination]\<rparr>)
      in if truthy (content s) then
           (case py_contains (content s) ''pagination'' of
              Inl e \<Rightarrow> (Inl e, s)
            | Inr False \<Rightarrow> fallback
            | Inr True \<Rightarrow>
                (case py_getitem (content s) ''pagination'' of
                   Inl e \<Rightarrow> (Inl e, s)
                 | Inr pagination \<Rightarrow>
                     (case py_get pagination ''pages'' (JInt 1) of
                        Inl e \<Rightarrow> (Inl e, s)
                      | Inr total_pages \<Rightarrow>
                          (Inr total_pages, s\<lparr>logged := logged s @ [TotalPages total_pages]\<rparr>))))
         else fallback)"

text \<open>
  The body of the \<open>for\<close> loop of \<open>paginated_search\<close>, over the pages still to visit,
  with \<open>all_companies\<close> as accumulator. An exception leaves the loop.
\<close>

fun search_loop :: "server \<Rightarrow> int list \<Rightarrow> json list \<Rightarrow> scraper \<Rightarrow> (py_error + json list) \<times> scraper" where
  "search_loop srv [] all_companies s = (Inr all_companies, s)"
| "search_loop srv (p # ps) all_companies s =
     (let s1 = snd (search_companies srv (s\<lparr>page := p\<rparr>))
      in case get_companies_data s1 of
           (Inl e, s2) \<Rightarrow> (Inl e, s2)
         | (Inr companies, s2) \<Rightarrow>
             (case list_extend all_companies companies of
                Inl e \<Rightarrow> (Inl e, s2)
              | Inr all_companies' \<Rightarrow> search_loop srv ps all_companies' s2))"

definition paginated_search :: "server \<Rightarrow> scraper \<Rightarrow> (py_error + json list) \<times> scraper" where
  "paginated_search srv s =
     (let s1 = snd (search_companies srv s)
      in case get_total_pages s1 of
           (Inl e, s2) \<Rightarrow> (Inl e, s2)
         | (Inr total_pages, s2) \<Rightarrow>
             (case page_range total_pages of
                Inl e \<Rightarrow> (Inl e, s2)
              | Inr pages \<Rightarrow>
                  (case search_loop srv pages [] s2 of
                     (Inl e, s3) \<Rightarrow> (Inl e, s3)
                   | (Inr all_companies, s3) \<Rightarrow>
                       (Inr all_companies,
                        s3\<lparr>logged := logged s3 @ [SearchFinished (length all_companies)]\<rparr>))))"

definition start :: "server \<Rightarrow> string \<Rightarrow> scraper \<Rightarrow> (py_error + json list) \<times> scraper" where
  "start srv kw s =
     paginated_search srv (s\<lparr>keyword := kw, logged := logged s @ [SearchStarted kw]\<rparr>)"

section \<open>The envelope of the specification\<close>

text \<open>
  The specification describes the response envelope as a JSON object with an optional
  \<open>companies\<close> list and an optional \<open>pagination\<close> object with an optional integer
  \<open>pages\<close>. The definitions below follow these words; they are used to state the
  properties and are compared with what the methods compute.
\<close>

fun field :: "json \<Rightarrow> string \<Rightarrow> json option" where
  "field (JObj kvs) k = map_of kvs k"
| "field j k = None"

fun is_array :: "json \<Rightarrow> bool" where
  "is_array (JArr xs) = True"
| "is_array j = False"

fun is_int :: "json \<Rightarrow> bool" where
  "is_int (JInt n) = True"
| "is_int j = False"

fun is_object :: "json \<Rightarrow> bool" where
  "is_object (JObj kvs) = True"
| "is_object j = False"

definition wf_envelope :: "json \<Rightarrow> bool" where
  "wf_envelope e =
     (is_object e
      \<and> (case field e ''companies'' of None \<Rightarrow> True | Some c \<Rightarrow> is_array c)
      \<and> (case field e ''pagination'' of
            None \<Rightarrow> True
          | Some p \<Rightarrow> is_object p \<and> (case field p ''pages'' of None \<Rightarrow> True | Some n \<Rightarrow> is_int n)))"

definition page_companies :: "json \<Rightarrow> json list" where
  "page_companies e = (case field e ''companies'' of Some (JArr xs) \<Rightarrow> xs | _ \<Rightarrow> [])"

definition pages_field :: "json \<Rightarrow> json option" where
  "pages_field e = (case field e ''pagination'' of None \<Rightarrow> None | Some p \<Rightarrow> field p ''pages'')"

definition reported_pages :: "json \<Rightarrow> int" where
  "reported_pages e = (case pages_field e of Some (JInt n) \<Rightarrow> n | _ \<Rightarrow> 1)"

definition wf_content :: "json \<Rightarrow> bool" where
  "wf_content c = (c = JNull \<or> wf_envelope c)"

definition wf_server :: "server \<Rightarrow> bool" where
  "wf_server srv = (\<forall>h r t j. srv h r = Response 200 t (Some j) \<longrightarrow> wf_envelope j)"

fun fetch_fails :: "http_outcome \<Rightarrow> bool" where
  "fetch_fails (Response status_code body js) = (status_code \<noteq> 200)"
| "fetch_fails (RequestException e) = True"

definition request_for :: "scraper \<Rightarrow> int \<Rightarrow> request" where
  "request_for s p = \<lparr>req_url = url (s\<lparr>page := p\<rparr>), req_headers = headers\<rparr>"

section \<open>Concrete remote sides\<close>

definition company :: "string \<Rightarrow> json" where
  "company n = JObj [(''companyName'', JStr n)]"

definition envelope :: "int \<Rightarrow> json list \<Rightarrow> json" where
  "envelope n cs = JObj [(''companies'', JArr cs), (''pagination'', JObj [(''pages'', JInt n)])]"

definition api_pages :: "int \<Rightarrow> server" where
  "api_pages n h r = Response 200 ''{}'' (Some (envelope n [company ''a'']))"

definition api_two_pages :: server where
  "api_two_pages h r =
     (if length h < 2 then Response 200 ''{}'' (Some (envelope 2 [company ''a'', company ''b'']))
      else Response 200 ''{}'' (Some (envelope 2 [company ''c''])))"

definition api_page2_fails :: server where
  "api_page2_fails h r =
     (if length h < 2 then Response 200 ''{}'' (Some (envelope 2 [company ''a'']))
      else Response 500 ''Internal Server Error'' None)"

definition api_always_500 :: server where
  "api_always_500 h r = Response 500 ''Internal Server Error'' None"

definition api_null_companies :: server where
  "api_null_companies h r =
     (if length h < 1 then Response 200 ''{}'' (Some (envelope 3 [company ''a'']))
      else Response 200 ''{}''
             (Some (JObj [(''companies'', JNull), (''pagination'', JObj [(''pages'', JInt 3)])])))"


section \<open>Properties of the methods\<close>

lemma request_for_page [simp]: "request_for (s\<lparr>page := q\<rparr>) p = request_for s p"
  by (simp add: request_for_def url_def)

lemma request_for_logged [simp]: "request_for (s\<lparr>logged := l\<rparr>) p = request_for s p"
  by (simp add: request_for_def url_def)

lemma request_for_cong:
  "type_rank s' = type_rank s \<Longrightarrow> keyword s' = keyword s \<Longrightarrow>
   results_per_page s' = results_per_page s \<Longrightarrow> request_for s' = request_for s"
  by (rule ext) (simp add: request_for_def url_def)

lemma request_for_self: "\<lparr>req_url = url s, req_headers = headers\<rparr> = request_for s (page s)"
  by (simp add: request_for_def url_def)

subsection \<open>search_companies\<close>

lemma search_companies_sent:
  "sent (snd (search_companies srv s)) = sent s @ [request_for s (page s)]"
  by (simp add: search_companies_def Let_def request_for_self split: http_outcome.splits option.splits)

lemma search_companies_query:
  "page (snd (search_companies srv s)) = page s"
  "results_per_page (snd (search_companies srv s)) = results_per_page s"
  "keyword (snd (search_companies srv s)) = keyword s"
  "type_rank (snd (search_companies srv s)) = type_rank s"
  "http (snd (search_companies srv s)) = http s"
  by (simp_all add: search_companies_def Let_def split: http_outcome.splits option.splits)

lemma search_companies_ok:
  "srv (sent s) (request_for s (page s)) = Response 200 t (Some e) \<Longrightarrow>
   content (snd (search_companies srv s)) = e"
  by (simp add: search_companies_def Let_def request_for_self)

lemma search_companies_fails:
  "fetch_fails (srv (sent s) (request_for s (page s))) \<Longrightarrow>
   content (snd (search_companies srv s)) = content s"
  by (auto simp add: search_companies_def Let_def request_for_self split: http_outcome.splits option.splits)

lemma search_companies_wf:
  "wf_server srv \<Longrightarrow> wf_content (content s) \<Longrightarrow> wf_content (content (snd (search_companies srv s)))"
  by (auto simp add: search_companies_def Let_def wf_server_def wf_content_def
      split: http_outcome.splits option.splits)

subsection \<open>extraction\<close>

lemma get_companies_data_fields:
  "sent (snd (get_companies_data s)) = sent s"
  "page (snd (get_companies_data s)) = page s"
  "results_per_page (snd (get_companies_data s)) = results_per_page s"
  "keyword (snd (get_companies_data s)) = keyword s"
  "type_rank (snd (get_companies_data s)) = type_rank s"
  "content (snd (get_companies_data s)) = content s"
  by (simp_all add: get_companies_data_def split: sum.splits)

lemma get_total_pages_fields:
  "sent (snd (get_total_pages s)) = sent s"
  "page (snd (get_total_pages s)) = page s"
  "results_per_page (snd (get_total_pages s)) = results_per_page s"
  "keyword (snd (get_total_pages s)) = keyword s"
  "type_rank (snd (get_total_pages s)) = type_rank s"
  "content (snd (get_total_pages s)) = content s"
  by (simp_all add: get_total_pages_def Let_def split: sum.splits bool.splits)

lemma wf_envelope_cases:
  assumes "wf_envelope e"
  obtains kvs where "e = JObj kvs"
  using assms by (cases e) (simp_all add: wf_envelope_def)

lemma get_companies_data_wf:
  assumes "wf_content (content s)"
  shows "fst (get_companies_data s) = Inr (JArr (page_companies (content s)))"
proof (cases "content s = JNull")
  case True
  then show ?thesis by (simp add: get_companies_data_def page_companies_def)
next
  case False
  with assms have wf: "wf_envelope (content s)" by (simp add: wf_content_def)
  then obtain kvs where c: "content s = JObj kvs" by (rule wf_envelope_cases)
  show ?thesis
  proof (cases "map_of kvs ''companies''")
    case None
    then show ?thesis
      using c by (cases kvs) (simp_all add: get_companies_data_def page_companies_def)
  next
    case (Some v)
    with wf c obtain xs where "v = JArr xs" by (cases v) (simp_all add: wf_envelope_def)
    with Some c show ?thesis
      by (cases kvs) (simp_all add: get_companies_data_def page_companies_def)
  qed
qed

lemma get_total_pages_wf:
  assumes "wf_content (content s)"
  shows "fst (get_total_pages s) = Inr (JInt (reported_pages (content s)))"
proof (cases "content s = JNull")
  case True
  then show ?thesis by (simp add: get_total_pages_def reported_pages_def pages_field_def)
next
  case False
  with assms have wf: "wf_envelope (content s)" by (simp add: wf_content_def)
  then obtain kvs where c: "content s = JObj kvs" by (rule wf_envelope_cases)
  show ?thesis
  proof (cases "map_of kvs ''pagination''")
    case None
    then show ?thesis
      using c by (cases kvs) (simp_all add: get_total_pages_def reported_pages_def pages_field_def)
  next
    case (Some p)
    with wf c obtain ps where p: "p = JObj ps" by (cases p) (simp_all add: wf_envelope_def)
    have ne: "kvs \<noteq> []" using Some by auto
    show ?thesis
    proof (cases "map_of ps ''pages''")
      case None
      with Some p c ne show ?thesis
        by (simp add: get_total_pages_def reported_pages_def pages_field_def)
    next
      case (Some v)
      with wf c p \<open>map_of kvs ''pagination'' = Some p\<close> obtain n where "v = JInt n"
        by (cases v) (simp_all add: wf_envelope_def)
      with Some p c ne \<open>map_of kvs ''pagination'' = Some p\<close> show ?thesis
        by (simp add: get_total_pages_def reported_pages_def pages_field_def)
    qed
  qed
qed

subsection \<open>the loop\<close>

lemma search_loop_sent_prefix:
  "\<exists>rest. sent (snd (search_loop srv ps acc s)) = sent s @ rest"
proof (induction ps arbitrary: acc s)
  case Nil
  then show ?case by simp
next
  case (Cons p ps)
  let ?s1 = "snd (search_companies srv (s\<lparr>page := p\<rparr>))"
  obtain r s2 where g: "get_companies_data ?s1 = (r, s2)" by (cases "get_companies_data ?s1")
  have s2: "sent s2 = sent s @ [request_for s p]"
    using get_companies_data_fields(1)[of ?s1] g by (simp add: search_companies_sent)
  show ?case
  proof (cases r)
    case (Inl e)
    with g s2 show ?thesis by (simp add: Let_def)
  next
    case (Inr v)
    show ?thesis
    proof (cases "list_extend acc v")
      case (Inl e)
      with g s2 Inr show ?thesis by (simp add: Let_def)
    next
      case (Inr acc')
      from Cons.IH[of acc' s2] obtain rest where "sent (snd (search_loop srv ps acc' s2)) = sent s2 @ rest" ..
      with g s2 \<open>r = Inr v\<close> Inr show ?thesis by (simp add: Let_def)
    qed
  qed
qed

lemma search_loop_one_sent:
  "sent (snd (search_loop srv [p] acc s)) = sent s @ [request_for s p]"
proof -
  let ?s1 = "snd (search_companies srv (s\<lparr>page := p\<rparr>))"
  obtain r s2 where g: "get_companies_data ?s1 = (r, s2)" by (cases "get_companies_data ?s1")
  have s2: "sent s2 = sent s @ [request_for s p]"
    using get_companies_data_fields(1)[of ?s1] g by (simp add: search_companies_sent)
  show ?thesis using g s2 by (simp add: Let_def split: sum.splits)
qed

text \<open>One iteration on a well-formed envelope.\<close>

lemma search_loop_step_wf:
  assumes "wf_content (content (snd (search_companies srv (s\<lparr>page := p\<rparr>))))"
  shows "search_loop srv (p # ps) acc s =
         search_loop srv ps (acc @ page_companies (content (snd (search_companies srv (s\<lparr>page := p\<rparr>)))))
           (snd (get_companies_data (snd (search_companies srv (s\<lparr>page := p\<rparr>)))))"
proof -
  let ?s1 = "snd (search_companies srv (s\<lparr>page := p\<rparr>))"
  obtain r s2 where g: "get_companies_data ?s1 = (r, s2)" by (cases "get_companies_data ?s1")
  with get_companies_data_wf[OF assms] have "r = Inr (JArr (page_companies (content ?s1)))" by simp
  with g show ?thesis by (simp add: Let_def)
qed

lemma search_loop_wf:
  assumes "wf_server srv" "wf_content (content s)"
  shows "(\<exists>res. fst (search_loop srv ps acc s) = Inr res)
       \<and> sent (snd (search_loop srv ps acc s)) = sent s @ map (request_for s) ps
       \<and> page (snd (search_loop srv ps acc s)) = last (page s # ps)"
  using assms(2)
proof (induction ps arbitrary: acc s)
  case Nil
  then show ?case by simp
next
  case (Cons p ps)
  let ?s1 = "snd (search_companies srv (s\<lparr>page := p\<rparr>))"
  let ?s2 = "snd (get_companies_data ?s1)"
  have wf1: "wf_content (content ?s1)"
    using search_companies_wf[OF assms(1), of "s\<lparr>page := p\<rparr>"] Cons.prems by simp
  have wf2: "wf_content (content ?s2)" using wf1 by (simp add: get_companies_data_fields)
  have rq: "request_for ?s2 = request_for s"
    by (rule request_for_cong) (simp_all add: get_companies_data_fields search_companies_query)
  have snt: "sent ?s2 = sent s @ [request_for s p]"
    by (simp add: get_companies_data_fields search_companies_sent)
  have pg: "page ?s2 = p"
    by (simp add: get_companies_data_fields search_companies_query)
  show ?case
    unfolding search_loop_step_wf[OF wf1]
    using Cons.IH[OF wf2, of "acc @ page_companies (content ?s1)"]
    by (simp add: rq snt pg)
qed

text \<open>The loop over \<open>[a..n]\<close> when every fetch succeeds.\<close>

lemma search_loop_all_ok:
  assumes "\<forall>p\<in>{a..n}. \<exists>t. srv (sent s @ map (request_for s) [a..p - 1]) (request_for s p)
                              = Response 200 t (Some (body p)) \<and> wf_envelope (body p)"
  shows "fst (search_loop srv [a..n] acc s) = Inr (acc @ concat (map (\<lambda>p. page_companies (body p)) [a..n]))"
  using assms
proof (induction a n arbitrary: acc s rule: upto.induct)
  case (1 a n)
  show ?case
  proof (cases "a \<le> n")
    case False
    then show ?thesis by simp
  next
    case True
    let ?s1 = "snd (search_companies srv (s\<lparr>page := a\<rparr>))"
    let ?s2 = "snd (get_companies_data ?s1)"
    from True have "a \<in> {a..n}" by simp
    with "1.prems" obtain t where
      ra0: "srv (sent s @ map (request_for s) [a..a - 1]) (request_for s a) = Response 200 t (Some (body a))"
      and wfa: "wf_envelope (body a)"
      by blast
    from ra0 have ra: "srv (sent s) (request_for s a) = Response 200 t (Some (body a))" by simp
    have c1: "content ?s1 = body a"
      using search_companies_ok[of srv "s\<lparr>page := a\<rparr>" t "body a"] ra by simp
    have wf1: "wf_content (content ?s1)" using c1 wfa by (simp add: wf_content_def)
    have rq: "request_for ?s2 = request_for s"
      by (rule request_for_cong) (simp_all add: get_companies_data_fields search_companies_query)
    have snt: "sent ?s2 = sent s @ [request_for s a]"
      by (simp add: get_companies_data_fields search_companies_sent)
    have prem': "\<forall>p\<in>{a + 1..n}. \<exists>t. srv (sent ?s2 @ map (request_for ?s2) [a + 1..p - 1]) (request_for ?s2 p)
                              = Response 200 t (Some (body p)) \<and> wf_envelope (body p)"
    proof
      fix p assume p: "p \<in> {a + 1..n}"
      then have "[a..p - 1] = a # [a + 1..p - 1]" by (simp add: upto_rec1)
      moreover from p have "p \<in> {a..n}" by simp
      with "1.prems" obtain t where
        "srv (sent s @ map (request_for s) [a..p - 1]) (request_for s p) = Response 200 t (Some (body p))"
        "wf_envelope (body p)" by blast
      ultimately show "\<exists>t. srv (sent ?s2 @ map (request_for ?s2) [a + 1..p - 1]) (request_for ?s2 p)
                              = Response 200 t (Some (body p)) \<and> wf_envelope (body p)"
        by (simp add: rq snt)
    qed
    have up: "[a..n] = a # [a + 1..n]" using True by (simp add: upto_rec1)
    show ?thesis
      unfolding up search_loop_step_wf[OF wf1]
      using "1.IH"[OF True prem', of "acc @ page_companies (body a)"]
      by (simp add: c1)
  qed
qed

lemma paginated_search_sent:
  "sent (snd (paginated_search srv s)) =
     (case get_total_pages (snd (search_companies srv s)) of
        (Inl e, s2) \<Rightarrow> sent s2
      | (Inr tp, s2) \<Rightarrow>
          (case page_range tp of
             Inl e \<Rightarrow> sent s2
           | Inr pages \<Rightarrow> sent (snd (search_loop srv pages [] s2))))"
  by (simp add: paginated_search_def Let_def split: prod.splits sum.splits)

lemma paginated_search_probe_first:
  "\<exists>rest. sent (snd (paginated_search srv s)) = sent s @ request_for s (page s) # rest"
proof -
  let ?s1 = "snd (search_companies srv s)"
  obtain r s2 where g: "get_total_pages ?s1 = (r, s2)" by (cases "get_total_pages ?s1")
  have s2: "sent s2 = sent s @ [request_for s (page s)]"
    using get_total_pages_fields(1)[of ?s1] g by (simp add: search_companies_sent)
  show ?thesis
  proof (cases r)
    case (Inl e)
    with g s2 show ?thesis by (simp add: paginated_search_sent)
  next
    case (Inr tp)
    show ?thesis
    proof (cases "page_range tp")
      case (Inl e)
      with g s2 Inr show ?thesis by (simp add: paginated_search_sent)
    next
      case (Inr pages)
      obtain rest where "sent (snd (search_loop srv pages [] s2)) = sent s2 @ rest"
        using search_loop_sent_prefix by blast
      with g s2 \<open>r = Inr tp\<close> Inr show ?thesis by (simp add: paginated_search_sent)
    qed
  qed
qed

lemma paginated_search_wf:
  assumes "wf_server srv"
    and "srv (sent s) (request_for s (page s)) = Response 200 t (Some e0)"
  shows "(\<exists>res. fst (paginated_search srv s) = Inr res)
       \<and> sent (snd (paginated_search srv s))
           = sent s @ request_for s (page s) # map (request_for s) [1..reported_pages e0]
       \<and> page (snd (paginated_search srv s)) = last (page s # [1..reported_pages e0])"
proof -
  let ?s1 = "snd (search_companies srv s)"
  let ?N = "reported_pages e0"
  have c1: "content ?s1 = e0" using assms(2) by (rule search_companies_ok)
  have "wf_envelope e0" using assms by (auto simp add: wf_server_def)
  then have wf1: "wf_content (content ?s1)" by (simp add: c1 wf_content_def)
  obtain r s2 where g0: "get_total_pages ?s1 = (r, s2)" by (cases "get_total_pages ?s1")
  have r: "r = Inr (JInt ?N)" using get_total_pages_wf[OF wf1] g0 by (simp add: c1)
  have s2: "s2 = snd (get_total_pages ?s1)" using g0 by simp
  have wf2: "wf_content (content s2)" using wf1 by (simp add: s2 get_total_pages_fields)
  have rq: "request_for s2 = request_for s"
    by (rule request_for_cong) (simp_all add: s2 get_total_pages_fields search_companies_query)
  have snt: "sent s2 = sent s @ [request_for s (page s)]"
    by (simp add: s2 get_total_pages_fields search_companies_sent)
  have pg: "page s2 = page s"
    by (simp add: s2 get_total_pages_fields search_companies_query)
  from search_loop_wf[OF assms(1) wf2, of "[1..?N]" "[]"]
  obtain res where l: "fst (search_loop srv [1..?N] [] s2) = Inr res"
    and ls: "sent (snd (search_loop srv [1..?N] [] s2)) = sent s2 @ map (request_for s2) [1..?N]"
    and lp: "page (snd (search_loop srv [1..?N] [] s2)) = last (page s2 # [1..?N])"
    by blast
  obtain s3 where l3: "search_loop srv [1..?N] [] s2 = (Inr res, s3)"
    using l by (cases "search_loop srv [1..?N] [] s2") simp
  have ps: "paginated_search srv s = (Inr res, s3\<lparr>logged := logged s3 @ [SearchFinished (length res)]\<rparr>)"
    by (simp add: paginated_search_def Let_def g0 r l3)
  have "sent s3 = sent s @ request_for s (page s) # map (request_for s) [1..?N]"
    using ls by (simp add: l3 rq snt)
  moreover have "page s3 = last (page s # [1..?N])"
    using lp by (simp only: l3 pg snd_conv)
  ultimately show ?thesis by (simp add: ps)
qed

lemma paginated_search_no_pages:
  assumes "wf_server srv"
    and "srv (sent s) (request_for s (page s)) = Response 200 t (Some e0)"
    and "reported_pages e0 \<le> 0"
  shows "fst (paginated_search srv s) = Inr []"
proof -
  let ?s1 = "snd (search_companies srv s)"
  have c1: "content ?s1 = e0" using assms(2) by (rule search_companies_ok)
  have "wf_envelope e0" using assms by (auto simp add: wf_server_def)
  then have wf1: "wf_content (content ?s1)" by (simp add: c1 wf_content_def)
  obtain r s2 where g0: "get_total_pages ?s1 = (r, s2)" by (cases "get_total_pages ?s1")
  have r: "r = Inr (JInt (reported_pages e0))" using get_total_pages_wf[OF wf1] g0 by (simp add: c1)
  have "[1..reported_pages e0] = []" using assms(3) by simp
  then show ?thesis by (simp add: paginated_search_def Let_def g0 r)
qed

lemma pages_field_reported: "pages_field e = Some (JInt n) \<Longrightarrow> reported_pages e = n"
  by (simp add: reported_pages_def)

lemma last_upto: "1 \<le> n \<Longrightarrow> last (p # [1..n]) = (n::int)"
  by (simp add: upto_rec2)

lemma wf_server_api_pages: "wf_server (api_pages n)"
  by (simp add: wf_server_def api_pages_def envelope_def wf_envelope_def)

lemma wf_server_api_two_pages: "wf_server api_two_pages"
  by (auto simp add: wf_server_def api_two_pages_def envelope_def wf_envelope_def split: if_splits)

lemma pages_field_envelope: "pages_field (envelope n cs) = Some (JInt n)"
  by (simp add: pages_field_def envelope_def)

lemma page_companies_envelope: "page_companies (envelope n cs) = cs"
  by (simp add: page_companies_def envelope_def)

lemma wf_envelope_envelope: "wf_envelope (envelope n cs)"
  by (simp add: wf_envelope_def envelope_def)

subsection \<open>A failed probe on an empty object, and what a search keeps\<close>

lemma failed_probe_total_pages:
  assumes "content s = JNull"
    and "fetch_fails (srv (sent s) (request_for s (page s)))"
  shows "get_total_pages (snd (search_companies srv s))
         = (Inr (JInt 1), (snd (search_companies srv s))
                \<lparr>logged := logged (snd (search_companies srv s)) @ [NoPagination]\<rparr>)"
proof -
  let ?s1 = "snd (search_companies srv s)"
  have "content ?s1 = JNull"
    using search_companies_fails[of srv s, OF assms(2)] assms(1) by simp
  then show ?thesis by (simp add: get_total_pages_def)
qed

lemma failed_probe_sent:
  assumes "content s = JNull"
    and "fetch_fails (srv (sent s) (request_for s (page s)))"
  shows "sent (snd (paginated_search srv s)) = sent s @ [request_for s (page s), request_for s 1]"
proof -
  let ?s1 = "snd (search_companies srv s)"
  have rq: "request_for (?s1\<lparr>logged := logged ?s1 @ [NoPagination]\<rparr>) = request_for s"
    by (rule request_for_cong) (simp_all add: search_companies_query)
  show ?thesis
    by (simp add: paginated_search_sent failed_probe_total_pages[where s=s and srv=srv, OF assms] upto.simps
        search_loop_one_sent rq search_companies_sent del: search_loop.simps)
qed


lemma search_loop_query:
  "type_rank (snd (search_loop srv ps acc s)) = type_rank s
   \<and> results_per_page (snd (search_loop srv ps acc s)) = results_per_page s
   \<and> keyword (snd (search_loop srv ps acc s)) = keyword s"
proof (induction ps arbitrary: acc s)
  case Nil
  then show ?case by simp
next
  case (Cons p ps)
  let ?s1 = "snd (search_companies srv (s\<lparr>page := p\<rparr>))"
  obtain r s2 where g: "get_companies_data ?s1 = (r, s2)" by (cases "get_companies_data ?s1")
  have s2: "type_rank s2 = type_rank s" "results_per_page s2 = results_per_page s" "keyword s2 = keyword s"
    using get_companies_data_fields[of ?s1] g by (simp_all add: search_companies_query)
  show ?case
  proof (cases r)
    case (Inl e)
    with g s2 show ?thesis by (simp add: Let_def)
  next
    case (Inr v)
    show ?thesis
    proof (cases "list_extend acc v")
      case (Inl e)
      with g s2 Inr show ?thesis by (simp add: Let_def)
    next
      case (Inr acc')
      with g s2 \<open>r = Inr v\<close> Cons.IH[of acc' s2] show ?thesis by (simp add: Let_def)
    qed
  qed
qed

lemma paginated_search_query:
  "type_rank (snd (paginated_search srv s)) = type_rank s
   \<and> results_per_page (snd (paginated_search srv s)) = results_per_page s
   \<and> keyword (snd (paginated_search srv s)) = keyword s"
proof -
  let ?s1 = "snd (search_companies srv s)"
  obtain r s2 where g: "get_total_pages ?s1 = (r, s2)" by (cases "get_total_pages ?s1")
  have s2: "type_rank s2 = type_rank s" "results_per_page s2 = results_per_page s" "keyword s2 = keyword s"
    using get_total_pages_fields[of ?s1] g by (simp_all add: search_companies_query)
  show ?thesis
  proof (cases r)
    case (Inl e)
    with g s2 show ?thesis by (simp add: paginated_search_def Let_def)
  next
    case (Inr tp)
    show ?thesis
    proof (cases "page_range tp")
      case (Inl e)
      with g s2 Inr show ?thesis by (simp add: paginated_search_def Let_def)
    next
      case (Inr pages)
      obtain r3 s3 where l: "search_loop srv pages [] s2 = (r3, s3)"
        by (cases "search_loop srv pages [] s2")
      with search_loop_query[of srv pages "[]" s2] s2
      have "type_rank s3 = type_rank s" "results_per_page s3 = results_per_page s" "keyword s3 = keyword s"
        by simp_all
      with g l \<open>r = Inr tp\<close> Inr show ?thesis
        by (cases r3) (simp_all add: paginated_search_def Let_def)
    qed
  qed
qed

lemma start_probe_first:
  "sent (snd (start srv K s)) ! length (sent s) = request_for (s\<lparr>keyword := K\<rparr>) (page s)"
proof -
  let ?s0 = "s\<lparr>keyword := K, logged := logged s @ [SearchStarted K]\<rparr>"
  obtain rest where "sent (snd (paginated_search srv ?s0)) = sent ?s0 @ request_for ?s0 (page ?s0) # rest"
    using paginated_search_probe_first by blast
  then show ?thesis by (simp add: start_def nth_append)
qed

section \<open>The claims\<close>

text \<open>
  Claim C1 says that a loop page whose fetch fails adds nothing to the result, so that
  the length of the result is the sum of the company counts of the pages. The code
  does otherwise. Here the probe and page 1 answer with one company and two pages, and
  the fetch of page 2 fails with status 500: \<open>search_companies\<close> leaves \<open>self.content\<close>
  as page 1 set it, \<open>get_companies_data\<close> reads it again, and the company of page 1 is
  in the result twice.
\<close>

theorem failed_page_appends_previous_envelope_again:
  "api_page2_fails [request_for (init\<lparr>keyword := ''banks''\<rparr>) 1, request_for (init\<lparr>keyword := ''banks''\<rparr>) 1]
      (request_for (init\<lparr>keyword := ''banks''\<rparr>) 2) = Response 500 ''Internal Server Error'' None
   \<and> sent (snd (start api_page2_fails ''banks'' init))
       = [request_for (init\<lparr>keyword := ''banks''\<rparr>) 1, request_for (init\<lparr>keyword := ''banks''\<rparr>) 1,
          request_for (init\<lparr>keyword := ''banks''\<rparr>) 2]
   \<and> fst (start api_page2_fails ''banks'' init) = Inr [company ''a'', company ''a'']"
  by (simp add: start_def paginated_search_def search_companies_def get_total_pages_def
      get_companies_data_def init_def api_page2_fails_def envelope_def Let_def request_for_def
      url_def upto.simps)

text \<open>
  Claim C2, as amended. When the probe fetch succeeds and its envelope carries the
  integer \<open>P\<close> in \<open>pagination.pages\<close>, and the remote side only ever answers with
  envelopes of the documented shape, the search returns and the loop fetches the pages
  \<open>1..P\<close> in this order after the probe: one iteration for \<open>P = 1\<close>, none for
  \<open>P \<le> 0\<close>, where the result is empty. The page count is not clamped.
\<close>

theorem loop_visits_pages_1_to_P:
  assumes "wf_server srv"
    and "srv (sent s) (request_for s (page s)) = Response 200 t (Some e0)"
    and "pages_field e0 = Some (JInt P)"
  shows "(\<exists>res. fst (paginated_search srv s) = Inr res)
       \<and> sent (snd (paginated_search srv s))
           = sent s @ request_for s (page s) # map (request_for s) [1..P]
       \<and> length (sent (snd (paginated_search srv s))) = length (sent s) + 1 + nat P
       \<and> (P \<le> 0 \<longrightarrow> fst (paginated_search srv s) = Inr [])"
  using paginated_search_wf[OF assms(1,2)] pages_field_reported[OF assms(3)]
    paginated_search_no_pages[OF assms(1,2)]
  by simp

text \<open>
  Claim C2, the amended statement at a remote side that reports three pages: the probe
  and the pages 1, 2 and 3; and at one that reports zero pages: the probe alone and an
  empty result.
\<close>

theorem loop_visits_pages_1_to_P_witness:
  "sent (snd (paginated_search (api_pages 3) init))
     = [request_for init 1, request_for init 1, request_for init 2, request_for init 3]
   \<and> length (sent (snd (paginated_search (api_pages 3) init))) = 4
   \<and> sent (snd (paginated_search (api_pages 0) init)) = [request_for init 1]
   \<and> fst (paginated_search (api_pages 0) init) = Inr []"
proof -
  have p: "api_pages 3 (sent init) (request_for init (page init))
             = Response 200 ''{}'' (Some (envelope 3 [company ''a'']))"
    by (simp add: api_pages_def)
  have q: "api_pages 0 (sent init) (request_for init (page init))
             = Response 200 ''{}'' (Some (envelope 0 [company ''a'']))"
    by (simp add: api_pages_def)
  from loop_visits_pages_1_to_P[OF wf_server_api_pages p pages_field_envelope]
    loop_visits_pages_1_to_P[OF wf_server_api_pages q pages_field_envelope]
  show ?thesis by (simp add: init_def upto.simps)
qed

text \<open>
  Claim C2 as stated fails: with \<open>pagination.pages = 0\<close> the loop body never runs.
  Only the probe is sent and the result is empty, whereas \<open>pagination.pages = 1\<close>
  gives the probe and one loop fetch; 0 is not treated as 1.
\<close>

theorem zero_pages_not_clamped:
  "sent (snd (start (api_pages 0) ''banks'' init)) = [request_for (init\<lparr>keyword := ''banks''\<rparr>) 1]
   \<and> fst (start (api_pages 0) ''banks'' init) = Inr []
   \<and> length (sent (snd (start (api_pages 1) ''banks'' init))) = 2"
  by (simp add: start_def paginated_search_def search_companies_def get_total_pages_def
      get_companies_data_def init_def api_pages_def envelope_def Let_def request_for_def url_def upto.simps)

text \<open>
  Claim C3, as amended. On a freshly constructed scraper, for every keyword \<open>K\<close> and
  every page count \<open>N \<ge> 1\<close> reported by the probe response, provided every body
  answered with status 200 is an envelope of the documented shape, \<open>start\<close> sends
  exactly \<open>N + 1\<close> requests: the probe at page 1, then the pages \<open>1..N\<close>, each with
  ranking \<open>best\<close>, the keyword, its page number and the page size 50.
\<close>

theorem fresh_search_issues_N_plus_1_fetches:
  assumes "wf_server srv"
    and "srv [] (request_for (init\<lparr>keyword := K\<rparr>) 1) = Response 200 t (Some e0)"
    and "pages_field e0 = Some (JInt N)"
    and "1 \<le> N"
  shows "sent (snd (start srv K init))
           = map (\<lambda>p. \<lparr>req_url = ''https://iosearch.reclameaqui.com.br/raichu-io-site-search-v1/segments/ranking/best/''
                                  @ K @ ''/'' @ str_int p @ ''/50'',
                        req_headers = headers\<rparr>) (1 # [1..N])
       \<and> length (sent (snd (start srv K init))) = nat N + 1"
proof -
  let ?s = "init\<lparr>keyword := K, logged := logged init @ [SearchStarted K]\<rparr>"
  have p: "srv (sent ?s) (request_for ?s (page ?s)) = Response 200 t (Some e0)"
    using assms(2) by (simp add: init_def request_for_def url_def)
  have rq: "request_for ?s = (\<lambda>p. \<lparr>req_url = ''https://iosearch.reclameaqui.com.br/raichu-io-site-search-v1/segments/ranking/best/''
                                  @ K @ ''/'' @ str_int p @ ''/50'',
                        req_headers = headers\<rparr>)"
    by (rule ext) (simp add: request_for_def url_def init_def str_int_def str_nat.simps)
  from paginated_search_wf[OF assms(1) p] pages_field_reported[OF assms(3)]
  have "sent (snd (start srv K init)) = sent ?s @ request_for ?s (page ?s) # map (request_for ?s) [1..N]"
    by (simp add: start_def)
  then show ?thesis unfolding rq by (simp add: init_def)
qed

text \<open>
  Claim C3, the amended statement at the keyword \<open>banks\<close> and a remote side that
  reports two pages: three requests, page 1 twice.
\<close>

theorem fresh_search_issues_N_plus_1_fetches_witness:
  "map req_url (sent (snd (start api_two_pages ''banks'' init)))
     = [''https://iosearch.reclameaqui.com.br/raichu-io-site-search-v1/segments/ranking/best/banks/1/50'',
        ''https://iosearch.reclameaqui.com.br/raichu-io-site-search-v1/segments/ranking/best/banks/1/50'',
        ''https://iosearch.reclameaqui.com.br/raichu-io-site-search-v1/segments/ranking/best/banks/2/50'']"
proof -
  have p: "api_two_pages [] (request_for (init\<lparr>keyword := ''banks''\<rparr>) 1)
            = Response 200 ''{}'' (Some (envelope 2 [company ''a'', company ''b'']))"
    by (simp add: api_two_pages_def)
  have n: "(1::int) \<le> 2" by simp
  from fresh_search_issues_N_plus_1_fetches[OF wf_server_api_two_pages p pages_field_envelope n]
  show ?thesis by (simp add: upto.simps str_int_def str_nat.simps)
qed

text \<open>
  Claim C3 as stated fails. The probe reports three pages, and page 1 is then answered
  with status 200 and \<open>"companies": null\<close>. \<open>get_companies_data\<close> returns \<open>None\<close>,
  \<open>all_companies.extend(None)\<close> raises \<open>TypeError\<close>, and the search ends after two
  requests instead of four.
\<close>

theorem null_companies_aborts_the_loop:
  "api_null_companies [] (request_for (init\<lparr>keyword := ''banks''\<rparr>) 1)
     = Response 200 ''{}'' (Some (envelope 3 [company ''a'']))
   \<and> pages_field (envelope 3 [company ''a'']) = Some (JInt 3)
   \<and> sent (snd (start api_null_companies ''banks'' init))
       = [request_for (init\<lparr>keyword := ''banks''\<rparr>) 1, request_for (init\<lparr>keyword := ''banks''\<rparr>) 1]
   \<and> fst (start api_null_companies ''banks'' init) = Inl TypeError"
  by (simp add: start_def paginated_search_def search_companies_def get_total_pages_def
      get_companies_data_def init_def api_null_companies_def envelope_def Let_def request_for_def
      url_def upto.simps pages_field_def)

text \<open>
  Claim C4. When no envelope is stored (\<open>self.content\<close> is \<open>None\<close>) and the probe
  fetch fails, by a status other than 200 or by a \<open>RequestException\<close>, the page
  count read after the probe is 1 and the loop runs exactly once: after the probe
  one more request is sent, for page 1, whatever it returns.
\<close>

theorem failed_probe_defaults_to_one_page:
  assumes "content s = JNull"
    and "fetch_fails (srv (sent s) (request_for s (page s)))"
  shows "fst (get_total_pages (snd (search_companies srv s))) = Inr (JInt 1)
       \<and> sent (snd (paginated_search srv s)) = sent s @ [request_for s (page s), request_for s 1]"
  using failed_probe_total_pages[where s = s and srv = srv, OF assms]
    failed_probe_sent[where s = s and srv = srv, OF assms]
  by simp

text \<open>
  Claim C4 on a fresh scraper and a remote side that always answers 500.
\<close>

theorem failed_probe_defaults_to_one_page_witness:
  "fst (get_total_pages (snd (search_companies api_always_500 init))) = Inr (JInt 1)
   \<and> sent (snd (paginated_search api_always_500 init)) = [request_for init 1, request_for init 1]"
proof -
  have c: "content init = JNull" by (simp add: init_def)
  have f: "fetch_fails (api_always_500 (sent init) (request_for init (page init)))"
    by (simp add: api_always_500_def)
  from failed_probe_defaults_to_one_page[of init api_always_500, OF c f]
  show ?thesis by (simp add: init_def)
qed



text \<open>
  Claim C6. When the probe and every loop fetch succeed with envelopes of the
  documented shape, \<open>body p\<close> being the envelope received for page \<open>p\<close>, the result
  is the concatenation of the \<open>companies\<close> lists of the pages \<open>1..N\<close> in ascending
  page order, each list in its own order; nothing is sorted and nothing is removed.
\<close>

theorem result_is_concatenation_in_page_order:
  assumes "srv (sent s) (request_for s (page s)) = Response 200 t0 (Some e0)"
    and "wf_envelope e0"
    and "\<forall>p\<in>{1..reported_pages e0}.
           \<exists>t. srv (sent s @ request_for s (page s) # map (request_for s) [1..p - 1]) (request_for s p)
                 = Response 200 t (Some (body p)) \<and> wf_envelope (body p)"
  shows "fst (paginated_search srv s)
         = Inr (concat (map (\<lambda>p. page_companies (body p)) [1..reported_pages e0]))"
proof -
  let ?s1 = "snd (search_companies srv s)"
  let ?N = "reported_pages e0"
  have c1: "content ?s1 = e0" using assms(1) by (rule search_companies_ok)
  have wf1: "wf_content (content ?s1)" using assms(2) by (simp add: c1 wf_content_def)
  obtain r s2 where g0: "get_total_pages ?s1 = (r, s2)" by (cases "get_total_pages ?s1")
  have r: "r = Inr (JInt ?N)" using get_total_pages_wf[OF wf1] g0 by (simp add: c1)
  have s2: "s2 = snd (get_total_pages ?s1)" using g0 by simp
  have rq: "request_for s2 = request_for s"
    by (rule request_for_cong) (simp_all add: s2 get_total_pages_fields search_companies_query)
  have snt: "sent s2 = sent s @ [request_for s (page s)]"
    by (simp add: s2 get_total_pages_fields search_companies_sent)
  have pages: "\<forall>p\<in>{1..?N}. \<exists>t. srv (sent s2 @ map (request_for s2) [1..p - 1]) (request_for s2 p)
                 = Response 200 t (Some (body p)) \<and> wf_envelope (body p)"
    using assms(3) by (simp add: rq snt)
  have l: "fst (search_loop srv [1..?N] [] s2) = Inr (concat (map (\<lambda>p. page_companies (body p)) [1..?N]))"
    using search_loop_all_ok[OF pages, of "[]"] by simp
  obtain s3 where l3: "search_loop srv [1..?N] [] s2
                       = (Inr (concat (map (\<lambda>p. page_companies (body p)) [1..?N])), s3)"
    using l by (cases "search_loop srv [1..?N] [] s2") simp
  show ?thesis by (simp add: paginated_search_def Let_def g0 r l3)
qed

text \<open>
  Claim C6 on the scenario of the specification: two pages, two companies on page 1
  and one on page 2, three companies in this order in the result.
\<close>

theorem result_is_concatenation_in_page_order_witness:
  "fst (paginated_search api_two_pages (init\<lparr>keyword := ''banks''\<rparr>))
     = Inr [company ''a'', company ''b'', company ''c'']"
proof -
  let ?s = "init\<lparr>keyword := ''banks''\<rparr>"
  let ?body = "\<lambda>p::int. if p = 1 then envelope 2 [company ''a'', company ''b''] else envelope 2 [company ''c'']"
  have p: "api_two_pages (sent ?s) (request_for ?s (page ?s))
            = Response 200 ''{}'' (Some (envelope 2 [company ''a'', company ''b'']))"
    by (simp add: api_two_pages_def init_def)
  have n: "reported_pages (envelope 2 [company ''a'', company ''b'']) = 2"
    by (simp add: pages_field_reported pages_field_envelope)
  have pages: "\<forall>p\<in>{1..reported_pages (envelope 2 [company ''a'', company ''b''])}.
           \<exists>t. api_two_pages (sent ?s @ request_for ?s (page ?s) # map (request_for ?s) [1..p - 1]) (request_for ?s p)
                 = Response 200 t (Some (?body p)) \<and> wf_envelope (?body p)"
    unfolding n
  proof
    fix p :: int assume "p \<in> {1..2}"
    then have "p = 1 \<or> p = 2" by auto
    then show "\<exists>t. api_two_pages (sent ?s @ request_for ?s (page ?s) # map (request_for ?s) [1..p - 1]) (request_for ?s p)
                 = Response 200 t (Some (?body p)) \<and> wf_envelope (?body p)"
      by (auto simp add: api_two_pages_def init_def wf_envelope_envelope upto.simps)
  qed
  from result_is_concatenation_in_page_order[where srv = api_two_pages and s = ?s and body = ?body,
      OF p wf_envelope_envelope pages]
  show ?thesis by (simp add: n upto.simps page_companies_envelope)
qed

text \<open>
  Claim C7, as amended. When the stored envelope is absent or has the documented
  shape, extraction does not raise: \<open>get_companies_data\<close> returns the \<open>companies\<close>
  list, empty when the field is absent, and \<open>get_total_pages\<close> returns
  \<open>pagination.pages\<close>, 1 when it is absent. \<open>get_total_pages\<close> logs a warning when
  \<open>pagination\<close> is absent. \<open>get_companies_data\<close> logs a warning only when the
  envelope is absent or empty, and an info record otherwise, also when \<open>companies\<close>
  is absent.
\<close>

theorem extraction_on_documented_envelopes:
  assumes "wf_content (content s)"
  shows "fst (get_companies_data s) = Inr (JArr (page_companies (content s)))
       \<and> fst (get_total_pages s) = Inr (JInt (reported_pages (content s)))
       \<and> (field (content s) ''companies'' = None \<longrightarrow> fst (get_companies_data s) = Inr (JArr []))
       \<and> (field (content s) ''pagination'' = None \<longrightarrow>
            fst (get_total_pages s) = Inr (JInt 1)
            \<and> logged (snd (get_total_pages s)) = logged s @ [NoPagination]
            \<and> level_of NoPagination = WARNING)
       \<and> logged (snd (get_companies_data s))
           = logged s @ [if truthy (content s) then CompaniesExtracted else NoContent]
       \<and> level_of CompaniesExtracted = INFO \<and> level_of NoContent = WARNING"
proof -
  have a: "fst (get_companies_data s) = Inr (JArr (page_companies (content s)))"
    using assms by (rule get_companies_data_wf)
  have b: "fst (get_total_pages s) = Inr (JInt (reported_pages (content s)))"
    using assms by (rule get_total_pages_wf)
  have c: "field (content s) ''companies'' = None \<Longrightarrow> page_companies (content s) = []"
    by (simp add: page_companies_def)
  have d: "field (content s) ''pagination'' = None \<Longrightarrow> reported_pages (content s) = 1"
    by (simp add: reported_pages_def pages_field_def)
  have e: "logged (snd (get_total_pages s)) = logged s @ [NoPagination]"
    if "field (content s) ''pagination'' = None"
  proof (cases "content s = JNull")
    case True
    then show ?thesis by (simp add: get_total_pages_def)
  next
    case False
    with assms have "wf_envelope (content s)" by (simp add: wf_content_def)
    then obtain kvs where "content s = JObj kvs" by (rule wf_envelope_cases)
    with that show ?thesis by (cases kvs) (simp_all add: get_total_pages_def Let_def)
  qed
  have f: "logged (snd (get_companies_data s))
           = logged s @ [if truthy (content s) then CompaniesExtracted else NoContent]"
    using a by (auto simp add: get_companies_data_def split: sum.splits)
  show ?thesis using a b c d e f by simp
qed

text \<open>
  Claim C7, the amended statement at an envelope with neither \<open>companies\<close> nor
  \<open>pagination\<close>.
\<close>

theorem extraction_on_documented_envelopes_witness:
  "fst (get_companies_data (init\<lparr>content := JObj [(''query'', JStr ''banks'')]\<rparr>)) = Inr (JArr [])
   \<and> fst (get_total_pages (init\<lparr>content := JObj [(''query'', JStr ''banks'')]\<rparr>)) = Inr (JInt 1)
   \<and> map level_of (logged (snd (get_total_pages (init\<lparr>content := JObj [(''query'', JStr ''banks'')]\<rparr>)))) = [WARNING]
   \<and> map level_of (logged (snd (get_companies_data (init\<lparr>content := JObj [(''query'', JStr ''banks'')]\<rparr>)))) = [INFO]"
proof -
  have w: "wf_content (content (init\<lparr>content := JObj [(''query'', JStr ''banks'')]\<rparr>))"
    by (simp add: wf_content_def wf_envelope_def)
  from extraction_on_documented_envelopes[OF w]
  show ?thesis by (simp add: init_def page_companies_def reported_pages_def pages_field_def)
qed

text \<open>
  Claim C7 as stated fails. An envelope without \<open>companies\<close> gives the empty list
  with an info record and no warning. An envelope that is a JSON array makes
  \<open>get_companies_data\<close> raise \<open>AttributeError\<close>, and so does a \<open>pagination\<close> that is
  \<open>null\<close> in \<open>get_total_pages\<close>.
\<close>

theorem extraction_logs_info_or_raises:
  "fst (get_companies_data (init\<lparr>content := JObj [(''pagination'', JObj [(''pages'', JInt 2)])]\<rparr>)) = Inr (JArr [])
   \<and> map level_of (logged (snd (get_companies_data (init\<lparr>content := JObj [(''pagination'', JObj [(''pages'', JInt 2)])]\<rparr>)))) = [INFO]
   \<and> fst (get_companies_data (init\<lparr>content := JArr [company ''a'']\<rparr>)) = Inl AttributeError
   \<and> fst (get_total_pages (init\<lparr>content := JObj [(''pagination'', JNull)]\<rparr>)) = Inl AttributeError"
  by (simp add: get_companies_data_def get_total_pages_def init_def)

text \<open>
  Claim C8. The URL is the base address followed by
  \<open>/segments/ranking/{type_rank}/{keyword}/{page}/{results_per_page}\<close>; it depends on
  these four fields only; \<open>search_companies\<close> sends one request with this URL, the
  fixed \<open>User-Agent\<close> and \<open>Accept: application/json\<close>, and leaves the four fields as
  they were.
\<close>

theorem request_url_and_headers:
  "url s = ''https://iosearch.reclameaqui.com.br/raichu-io-site-search-v1'' @ ''/segments/ranking/''
             @ type_rank s @ ''/'' @ keyword s @ ''/'' @ str_int (page s) @ ''/'' @ str_int (results_per_page s)
   \<and> url (s\<lparr>http := h, content := c, sent := rs, logged := l\<rparr>) = url s
   \<and> sent (snd (search_companies srv s))
       = sent s @ [\<lparr>req_url = url s,
                    req_headers = [(''User-Agent'', ''Mozilla/5.0 (Windows NT 10.0; Win64; x64) AppleWebKit/537.36 (KHTML, like Gecko) Chrome/126.0.0.0 Safari/537.36''),
                                   (''Accept'', ''application/json'')]\<rparr>]
   \<and> page (snd (search_companies srv s)) = page s
   \<and> results_per_page (snd (search_companies srv s)) = results_per_page s
   \<and> keyword (snd (search_companies srv s)) = keyword s
   \<and> type_rank (snd (search_companies srv s)) = type_rank s"
  by (simp add: search_companies_query search_companies_sent request_for_def url_def headers_def)

text \<open>
  Claim C9. The session built by \<open>_configure_session\<close>, which \<open>__init__\<close> stores,
  mounts for \<open>https://\<close> and \<open>http://\<close> an adapter whose retry strategy has a total of
  3 retries, a finite bound, and forces a retry on exactly the statuses 403, 429, 500,
  502, 503 and 504.
\<close>

theorem retry_policy_configuration:
  "http init = configure_session
   \<and> map fst (mounts configure_session) = [''https://'', ''http://'']
   \<and> map (\<lambda>m. total (max_retries (snd m))) (mounts configure_session) = [Some 3, Some 3]
   \<and> map (\<lambda>m. set (status_forcelist (max_retries (snd m)))) (mounts configure_session)
       = [{403, 429, 500, 502, 503, 504}, {403, 429, 500, 502, 503, 504}]"
  by (simp add: init_def configure_session_def Let_def)

text \<open>
  Claim C10. \<open>start\<close> sends its probe for the page the object currently holds; no
  method resets \<open>self.page\<close>. After a search that the probe reported as \<open>N \<ge> 1\<close>
  pages the field holds \<open>N\<close>, and the probe of the next \<open>start\<close> on the same object
  asks for page \<open>N\<close> of the new keyword.
\<close>

theorem probe_is_sent_at_current_page:
  "sent (snd (start srv K s)) ! length (sent s) = request_for (s\<lparr>keyword := K\<rparr>) (page s)
   \<and> (wf_server srv
        \<and> srv (sent s) (request_for (s\<lparr>keyword := K\<rparr>) (page s)) = Response 200 t (Some e0)
        \<and> pages_field e0 = Some (JInt N) \<and> 1 \<le> N
      \<longrightarrow> page (snd (start srv K s)) = N
          \<and> sent (snd (start srv K' (snd (start srv K s)))) ! length (sent (snd (start srv K s)))
              = request_for (s\<lparr>keyword := K'\<rparr>) N)"
proof (intro conjI impI)
  show "sent (snd (start srv K s)) ! length (sent s) = request_for (s\<lparr>keyword := K\<rparr>) (page s)"
    by (rule start_probe_first)
next
  assume h: "wf_server srv
        \<and> srv (sent s) (request_for (s\<lparr>keyword := K\<rparr>) (page s)) = Response 200 t (Some e0)
        \<and> pages_field e0 = Some (JInt N) \<and> 1 \<le> N"
  let ?s0 = "s\<lparr>keyword := K, logged := logged s @ [SearchStarted K]\<rparr>"
  let ?S = "snd (start srv K s)"
  have p: "srv (sent ?s0) (request_for ?s0 (page ?s0)) = Response 200 t (Some e0)"
    using h by simp
  from h have wf: "wf_server srv" by simp
  from h have n: "reported_pages e0 = N" by (simp add: pages_field_reported)
  from paginated_search_wf[where srv = srv and s = ?s0, OF wf p]
  have "page (snd (paginated_search srv ?s0)) = last (page ?s0 # [1..N])" by (simp add: n)
  then show pg: "page ?S = N" using h by (simp add: start_def last_upto del: last.simps)
  have q: "type_rank ?S = type_rank s" "results_per_page ?S = results_per_page s"
    using paginated_search_query[of srv ?s0] by (simp_all add: start_def)
  have "request_for (?S\<lparr>keyword := K'\<rparr>) = request_for (s\<lparr>keyword := K'\<rparr>)"
    by (rule request_for_cong) (simp_all add: q)
  then show "sent (snd (start srv K' ?S)) ! length (sent ?S) = request_for (s\<lparr>keyword := K'\<rparr>) N"
    using start_probe_first[of srv K' ?S] by (simp add: pg)
qed

text \<open>
  Claim C10 on a fresh scraper: after a search of two pages for \<open>banks\<close>, the
  probe of a search for \<open>telecom\<close> asks for page 2.
\<close>

theorem probe_is_sent_at_current_page_witness:
  "page (snd (start api_two_pages ''banks'' init)) = 2
   \<and> req_url (sent (snd (start api_two_pages ''telecom'' (snd (start api_two_pages ''banks'' init)))) ! 3)
       = ''https://iosearch.reclameaqui.com.br/raichu-io-site-search-v1/segments/ranking/best/telecom/2/50''"
proof -
  have p: "api_two_pages (sent init) (request_for (init\<lparr>keyword := ''banks''\<rparr>) (page init))
            = Response 200 ''{}'' (Some (envelope 2 [company ''a'', company ''b'']))"
    by (simp add: api_two_pages_def init_def)
  have len: "length (sent (snd (start api_two_pages ''banks'' init))) = 3"
    by (simp add: start_def paginated_search_def search_companies_def get_total_pages_def
        get_companies_data_def init_def api_two_pages_def envelope_def Let_def upto.simps)
  have n: "(1::int) \<le> 2" by simp
  from probe_is_sent_at_current_page[of api_two_pages "''banks''" init "''{}''"
      "envelope 2 [company ''a'', company ''b'']" 2 "''telecom''"]
    wf_server_api_two_pages p pages_field_envelope[of 2 "[company ''a'', company ''b'']"] n
  have "page (snd (start api_two_pages ''banks'' init)) = 2
      \<and> sent (snd (start api_two_pages ''telecom'' (snd (start api_two_pages ''banks'' init))))
          ! length (sent (snd (start api_two_pages ''banks'' init)))
        = request_for (init\<lparr>keyword := ''telecom''\<rparr>) 2"
    by blast
  then have "page (snd (start api_two_pages ''banks'' init)) = 2
      \<and> sent (snd (start api_two_pages ''telecom'' (snd (start api_two_pages ''banks'' init)))) ! 3
        = request_for (init\<lparr>keyword := ''telecom''\<rparr>) 2"
    by (simp only: len)
  then show ?thesis
    by (simp add: request_for_def url_def init_def str_int_def str_nat.simps)
qed

end
